theory Spec2Isabelle
  imports Main "HOL-Library.Word"
begin

section \<open>AIDiscoveryFHE: batch lifecycle and oracle-mediated decryption\<close>

text \<open>
  A shallow embedding of the Solidity contract \<^verbatim>\<open>AIDiscoveryFHE\<close>. Every external function
  is a HOL function from the call environment (\<^verbatim>\<open>msg.sender\<close>, \<^verbatim>\<open>block.timestamp\<close>), its
  arguments and the contract storage to either an error (the \<^verbatim>\<open>revert\<close>) or the new storage
  together with the events emitted. Solidity mappings are total functions whose unset
  entries read as the zero value of their type. Arithmetic on \<^verbatim>\<open>uint256\<close> is checked
  (compiler 0.8): an overflow reverts with an arithmetic panic.
\<close>

subsection \<open>Value types, errors and events\<close>

type_synonym uint256 = "256 word"
type_synonym address = "160 word"
type_synonym bytes32 = "256 word"
type_synonym bytes = "8 word list"

datatype error =
    NotOwner
  | NotProvider
  | Paused
  | CooldownActive
  | InvalidBatch
  | InvalidParameter
  | ReplayDetected
  | StateMismatch
  | InvalidProof
  | NotInitialized
  | Panic \<comment> \<open>checked arithmetic overflow, \<^verbatim>\<open>Panic(0x11)\<close>\<close>
  | DecodeRevert \<comment> \<open>\<^verbatim>\<open>abi.decode\<close> on calldata shorter than one word\<close>

datatype event =
    OwnershipTransferred address address
  | ProviderAdded address
  | ProviderRemoved address
  | PauseToggled bool
  | CooldownSecondsSet uint256 uint256
  | BatchOpened uint256
  | BatchClosed uint256
  | DataSubmitted address uint256 uint256
  | DecryptionRequested uint256 uint256
  | DecryptionCompleted uint256 uint256 uint256

record DecryptionContext =
  batchId :: uint256
  stateHash :: bytes32
  processed :: bool

text \<open>
  The contract storage. The handle type \<^verbatim>\<open>euint32\<close> is declared by the imported library and
  stays a type parameter \<open>'h\<close>. The last field, \<open>counterRequest\<close>, is not a state variable
  of the contract: it is the request counter of the decryption oracle, which
  \<open>requestDecryption\<close> below reads and increments.
\<close>

record 'h storage =
  owner :: address
  isProvider :: "address \<Rightarrow> bool"
  paused :: bool
  cooldownSeconds :: uint256
  lastSubmissionTime :: "address \<Rightarrow> uint256"
  lastDecryptionRequestTime :: "address \<Rightarrow> uint256"
  currentBatchId :: uint256
  isBatchOpen :: "uint256 \<Rightarrow> bool"
  encryptedDataBatches :: "uint256 \<Rightarrow> 'h list"
  decryptionContexts :: "uint256 \<Rightarrow> DecryptionContext"
  counterRequest :: uint256

record env =
  msg_sender :: address
  block_timestamp :: uint256

text \<open>
  The imported encrypted-arithmetic library, the hash and the address of the deployed
  contract are parameters of the model: the operations on handles (\<^verbatim>\<open>FHE.asEuint32\<close>,
  \<^verbatim>\<open>add\<close>, \<^verbatim>\<open>mul\<close>, \<^verbatim>\<open>div\<close>, \<^verbatim>\<open>isInitialized\<close>, \<^verbatim>\<open>FHE.toBytes32\<close>), the proof check
  \<^verbatim>\<open>FHE.checkSignatures\<close>, \<^verbatim>\<open>keccak256(abi.encode(_, _))\<close> and \<^verbatim>\<open>address(this)\<close>.
\<close>

record 'h FHE =
  asEuint32 :: "uint256 \<Rightarrow> 'h"
  fhe_add :: "'h \<Rightarrow> 'h \<Rightarrow> 'h"
  fhe_mul :: "'h \<Rightarrow> 'h \<Rightarrow> 'h"
  fhe_div :: "'h \<Rightarrow> 'h \<Rightarrow> 'h"
  isInitialized :: "'h \<Rightarrow> bool"
  toBytes32 :: "'h \<Rightarrow> bytes32"
  checkSignatures :: "uint256 \<Rightarrow> bytes \<Rightarrow> bytes \<Rightarrow> bool"
  keccak256_encode :: "bytes32 list \<Rightarrow> address \<Rightarrow> bytes32"
  address_this :: address

type_synonym 'h result = "error + ('h storage \<times> event list)"

subsection \<open>Language primitives\<close>

definition checked_add :: "uint256 \<Rightarrow> uint256 \<Rightarrow> uint256 option" where
  "checked_add a b = (if unat a + unat b < 2 ^ 256 then Some (a + b) else None)"

text \<open>\<^verbatim>\<open>abi.decode(cleartexts, (uint256))\<close>: the first 32 bytes, big endian; fewer bytes revert.\<close>

definition abi_decode_uint256 :: "bytes \<Rightarrow> uint256 option" where
  "abi_decode_uint256 bs =
     (if length bs < 32 then None
      else Some (foldl (\<lambda>acc b. acc * 256 + ucast b) 0 (take 32 bs)))"

subsection \<open>Modifiers\<close>

definition submissionRateLimited :: "env \<Rightarrow> 'h storage \<Rightarrow> error + 'h storage" where
  "submissionRateLimited e s =
     (case checked_add (lastSubmissionTime s (msg_sender e)) (cooldownSeconds s) of
        None \<Rightarrow> Inl Panic
      | Some limit \<Rightarrow>
          if block_timestamp e < limit then Inl CooldownActive
          else Inr (s\<lparr>lastSubmissionTime :=
                        (lastSubmissionTime s)(msg_sender e := block_timestamp e)\<rparr>))"

definition decryptionRequestRateLimited :: "env \<Rightarrow> 'h storage \<Rightarrow> error + 'h storage" where
  "decryptionRequestRateLimited e s =
     (case checked_add (lastDecryptionRequestTime s (msg_sender e)) (cooldownSeconds s) of
        None \<Rightarrow> Inl Panic
      | Some limit \<Rightarrow>
          if block_timestamp e < limit then Inl CooldownActive
          else Inr (s\<lparr>lastDecryptionRequestTime :=
                        (lastDecryptionRequestTime s)(msg_sender e := block_timestamp e)\<rparr>))"

subsection \<open>Construction and administration\<close>

definition constructor :: "env \<Rightarrow> 'h storage \<times> event list" where
  "constructor e =
     (\<lparr>owner = msg_sender e,
       isProvider = (\<lambda>_. False),
       paused = False,
       cooldownSeconds = 0,
       lastSubmissionTime = (\<lambda>_. 0),
       lastDecryptionRequestTime = (\<lambda>_. 0),
       currentBatchId = 0,
       isBatchOpen = (\<lambda>_. False),
       encryptedDataBatches = (\<lambda>_. []),
       decryptionContexts = (\<lambda>_. \<lparr>batchId = 0, stateHash = 0, processed = False\<rparr>),
       counterRequest = 0\<rparr>,
      [OwnershipTransferred 0 (msg_sender e)])"

definition transferOwnership :: "env \<Rightarrow> address \<Rightarrow> 'h storage \<Rightarrow> 'h result" where
  "transferOwnership e newOwner s =
     (if msg_sender e \<noteq> owner s then Inl NotOwner
      else let previousOwner = owner s
           in Inr (s\<lparr>owner := newOwner\<rparr>, [OwnershipTransferred previousOwner newOwner]))"

definition addProvider :: "env \<Rightarrow> address \<Rightarrow> 'h storage \<Rightarrow> 'h result" where
  "addProvider e provider s =
     (if msg_sender e \<noteq> owner s then Inl NotOwner
      else if provider = 0 then Inl InvalidParameter
      else Inr (s\<lparr>isProvider := (isProvider s)(provider := True)\<rparr>, [ProviderAdded provider]))"

definition removeProvider :: "env \<Rightarrow> address \<Rightarrow> 'h storage \<Rightarrow> 'h result" where
  "removeProvider e provider s =
     (if msg_sender e \<noteq> owner s then Inl NotOwner
      else if \<not> isProvider s provider then Inl InvalidParameter
      else Inr (s\<lparr>isProvider := (isProvider s)(provider := False)\<rparr>,
                [ProviderRemoved provider]))"

definition setPaused :: "env \<Rightarrow> bool \<Rightarrow> 'h storage \<Rightarrow> 'h result" where
  "setPaused e p s =
     (if msg_sender e \<noteq> owner s then Inl NotOwner
      else Inr (s\<lparr>paused := p\<rparr>, [PauseToggled p]))"

definition setCooldownSeconds :: "env \<Rightarrow> uint256 \<Rightarrow> 'h storage \<Rightarrow> 'h result" where
  "setCooldownSeconds e c s =
     (if msg_sender e \<noteq> owner s then Inl NotOwner
      else let oldCooldown = cooldownSeconds s
           in Inr (s\<lparr>cooldownSeconds := c\<rparr>, [CooldownSecondsSet oldCooldown c]))"

subsection \<open>Batches\<close>

definition openBatch :: "env \<Rightarrow> 'h storage \<Rightarrow> 'h result" where
  "openBatch e s =
     (if msg_sender e \<noteq> owner s then Inl NotOwner
      else if paused s then Inl Paused
      else case checked_add (currentBatchId s) 1 of
        None \<Rightarrow> Inl Panic
      | Some n \<Rightarrow>
          Inr (s\<lparr>currentBatchId := n, isBatchOpen := (isBatchOpen s)(n := True)\<rparr>,
               [BatchOpened n]))"

definition closeBatch :: "env \<Rightarrow> uint256 \<Rightarrow> 'h storage \<Rightarrow> 'h result" where
  "closeBatch e bid s =
     (if msg_sender e \<noteq> owner s then Inl NotOwner
      else if \<not> isBatchOpen s bid then Inl InvalidBatch
      else Inr (s\<lparr>isBatchOpen := (isBatchOpen s)(bid := False)\<rparr>, [BatchClosed bid]))"

definition initIfNeeded :: "'h FHE \<Rightarrow> 'h \<Rightarrow> error + unit" where
  "initIfNeeded L v = (if \<not> isInitialized L v then Inl NotInitialized else Inr ())"

text \<open>The body of the \<^verbatim>\<open>for\<close> loop of \<^verbatim>\<open>submitData\<close>: check one handle, push it, go on.\<close>

fun submitData_loop :: "'h FHE \<Rightarrow> uint256 \<Rightarrow> 'h list \<Rightarrow> 'h storage \<Rightarrow> error + 'h storage" where
  "submitData_loop L bid [] s = Inr s"
| "submitData_loop L bid (v # vs) s =
     (case initIfNeeded L v of
        Inl err \<Rightarrow> Inl err
      | Inr _ \<Rightarrow>
          submitData_loop L bid vs
            (s\<lparr>encryptedDataBatches :=
                 (encryptedDataBatches s)(bid := encryptedDataBatches s bid @ [v])\<rparr>))"

definition submitData :: "'h FHE \<Rightarrow> env \<Rightarrow> uint256 \<Rightarrow> 'h list \<Rightarrow> 'h storage \<Rightarrow> 'h result" where
  "submitData L e bid dataPoints s =
     (if \<not> isProvider s (msg_sender e) then Inl NotProvider
      else if paused s then Inl Paused
      else case submissionRateLimited e s of
        Inl err \<Rightarrow> Inl err
      | Inr s1 \<Rightarrow>
          if \<not> isBatchOpen s1 bid then Inl InvalidBatch
          else case submitData_loop L bid dataPoints s1 of
            Inl err \<Rightarrow> Inl err
          | Inr s2 \<Rightarrow>
              Inr (s2, [DataSubmitted (msg_sender e) bid (of_nat (length dataPoints))]))"

subsection \<open>Aggregation, decryption request and callback\<close>

text \<open>The summing loop, \<^verbatim>\<open>sum = sum.add(data[i])\<close> for each index in order.\<close>

fun sum_loop :: "'h FHE \<Rightarrow> 'h \<Rightarrow> 'h list \<Rightarrow> 'h" where
  "sum_loop L acc [] = acc"
| "sum_loop L acc (x # xs) = sum_loop L (fhe_add L acc x) xs"

definition hashCiphertexts :: "'h FHE \<Rightarrow> 'h list \<Rightarrow> bytes32" where
  "hashCiphertexts L cts =
     (let ctsAsBytes = map (toBytes32 L) cts
      in keccak256_encode L ctsAsBytes (address_this L))"

text \<open>
  Modelled from the spec: \<^verbatim>\<open>FHE.requestDecryption\<close> belongs to the imported library and is
  missing from the contract source. The specification has the oracle hand back "an
  opaque requestId guaranteed unique by the oracle": the model returns the request
  counter and increments it, with the checked increment of the language. The handles
  and the callback selector passed along do not influence the id.
\<close>

definition requestDecryption :: "'h list \<Rightarrow> 'h storage \<Rightarrow> error + (uint256 \<times> 'h storage)" where
  "requestDecryption cts s =
     (case checked_add (counterRequest s) 1 of
        None \<Rightarrow> Inl Panic
      | Some n \<Rightarrow> Inr (counterRequest s, s\<lparr>counterRequest := n\<rparr>))"

definition requestDiscovery :: "'h FHE \<Rightarrow> env \<Rightarrow> uint256 \<Rightarrow> 'h storage \<Rightarrow> 'h result" where
  "requestDiscovery L e bid s =
     (if \<not> isProvider s (msg_sender e) then Inl NotProvider
      else if paused s then Inl Paused
      else case decryptionRequestRateLimited e s of
        Inl err \<Rightarrow> Inl err
      | Inr s1 \<Rightarrow>
          if isBatchOpen s1 bid then Inl InvalidBatch
          else let data = encryptedDataBatches s1 bid in
          if length data = 0 then Inl InvalidBatch
          else let sum = sum_loop L (asEuint32 L 0) data;
                   average = fhe_div L (fhe_mul L sum (asEuint32 L 1000))
                               (asEuint32 L (of_nat (length data)));
                   cts = [average];
                   h = hashCiphertexts L cts
               in case requestDecryption cts s1 of
                    Inl err \<Rightarrow> Inl err
                  | Inr (requestId, s2) \<Rightarrow>
                      Inr (s2\<lparr>decryptionContexts := (decryptionContexts s2)
                                (requestId := \<lparr>batchId = bid, stateHash = h, processed = False\<rparr>)\<rparr>,
                           [DecryptionRequested requestId bid]))"

definition myCallback :: "'h FHE \<Rightarrow> env \<Rightarrow> uint256 \<Rightarrow> bytes \<Rightarrow> bytes \<Rightarrow> 'h storage \<Rightarrow> 'h result" where
  "myCallback L e requestId cleartexts proof s =
     (if processed (decryptionContexts s requestId) then Inl ReplayDetected
      else let bid = batchId (decryptionContexts s requestId);
               data = encryptedDataBatches s bid;
               sum = sum_loop L (asEuint32 L 0) data;
               average = fhe_div L (fhe_mul L sum (asEuint32 L 1000))
                           (asEuint32 L (of_nat (length data)));
               cts = [average];
               currentHash = hashCiphertexts L cts
           in if currentHash \<noteq> stateHash (decryptionContexts s requestId) then Inl StateMismatch
              else if \<not> checkSignatures L requestId cleartexts proof then Inl InvalidProof
              else case abi_decode_uint256 cleartexts of
                None \<Rightarrow> Inl DecodeRevert
              | Some result \<Rightarrow>
                  let s1 = s\<lparr>decryptionContexts := (decryptionContexts s)
                              (requestId := (decryptionContexts s requestId)\<lparr>processed := True\<rparr>)\<rparr>
                  in Inr (s1, [DecryptionCompleted requestId
                                 (batchId (decryptionContexts s1 requestId)) result]))"

subsection \<open>Transactions\<close>

datatype 'h call =
    TransferOwnership address
  | AddProvider address
  | RemoveProvider address
  | SetPaused bool
  | SetCooldownSeconds uint256
  | OpenBatch
  | CloseBatch uint256
  | SubmitData uint256 "'h list"
  | RequestDiscovery uint256
  | MyCallback uint256 bytes bytes

fun exec :: "'h FHE \<Rightarrow> env \<Rightarrow> 'h call \<Rightarrow> 'h storage \<Rightarrow> 'h result" where
  "exec L e (TransferOwnership a) s = transferOwnership e a s"
| "exec L e (AddProvider a) s = addProvider e a s"
| "exec L e (RemoveProvider a) s = removeProvider e a s"
| "exec L e (SetPaused p) s = setPaused e p s"
| "exec L e (SetCooldownSeconds c) s = setCooldownSeconds e c s"
| "exec L e OpenBatch s = openBatch e s"
| "exec L e (CloseBatch bid) s = closeBatch e bid s"
| "exec L e (SubmitData bid vs) s = submitData L e bid vs s"
| "exec L e (RequestDiscovery bid) s = requestDiscovery L e bid s"
| "exec L e (MyCallback rid ct pf) s = myCallback L e rid ct pf s"

text \<open>A transaction that reverts leaves the storage as it was; one that returns commits.\<close>

definition transact :: "'h FHE \<Rightarrow> 'h storage \<Rightarrow> env \<times> 'h call \<Rightarrow> 'h storage" where
  "transact L s tx = (case exec L (fst tx) (snd tx) s of Inl _ \<Rightarrow> s | Inr (s', _) \<Rightarrow> s')"

definition run :: "'h FHE \<Rightarrow> 'h storage \<Rightarrow> (env \<times> 'h call) list \<Rightarrow> 'h storage" where
  "run L s txs = foldl (transact L) s txs"

subsection \<open>The aggregate as the specification words it\<close>

text \<open>
  The specification's \<open>sum * SCALE / count\<close> with \<open>SCALE = 1000\<close>: the handles of the batch
  added up from the lifted constant 0, the sum multiplied by the lifted 1000, the
  product divided by the lifted count.
\<close>

definition scaled_average :: "'h FHE \<Rightarrow> 'h list \<Rightarrow> 'h" where
  "scaled_average L data =
     fhe_div L (fhe_mul L (foldl (fhe_add L) (asEuint32 L 0) data) (asEuint32 L 1000))
       (asEuint32 L (of_nat (length data)))"

subsection \<open>A concrete library and concrete callers, for evaluation\<close>

text \<open>
  A transparent stand-in for the library: the handle of a cleartext \<open>v\<close> is \<open>v + 1\<close>, so the
  zero handle is the uninitialised one; the digest is odd, hence never the zero word; a
  proof verifies when it is the single byte of the request id.
\<close>

definition testFHE :: "uint256 FHE" where
  "testFHE =
     \<lparr>asEuint32 = (\<lambda>v. v + 1),
      fhe_add = (\<lambda>a b. a + b - 1),
      fhe_mul = (\<lambda>a b. (a - 1) * (b - 1) + 1),
      fhe_div = (\<lambda>a b. (a - 1) div (b - 1) + 1),
      isInitialized = (\<lambda>h. h \<noteq> 0),
      toBytes32 = (\<lambda>h. h),
      checkSignatures = (\<lambda>rid ct pf. pf = [ucast rid]),
      keccak256_encode = (\<lambda>bs a. 2 * (sum_list bs + ucast a) + 1),
      address_this = 192\<rparr>"

definition alice :: env where
  "alice = \<lparr>msg_sender = 1, block_timestamp = 0\<rparr>"

definition fresh :: "uint256 storage" where
  "fresh = fst (constructor alice)"

text \<open>A provider, as the sender of a call at a given time.\<close>

definition bob :: "uint256 \<Rightarrow> env" where
  "bob t = \<lparr>msg_sender = 2, block_timestamp = t\<rparr>"

text \<open>The owner has added the provider and opened batch 1.\<close>

definition opened :: "uint256 storage" where
  "opened = run testFHE fresh [(alice, AddProvider 2), (alice, OpenBatch)]"

text \<open>The same with a cooldown of 60 seconds.\<close>

definition cooled :: "uint256 storage" where
  "cooled = run testFHE opened [(alice, SetCooldownSeconds 60)]"

text \<open>The provider has submitted at time 100; then the owner has set the largest cooldown.\<close>

definition saturated :: "uint256 storage" where
  "saturated = run testFHE opened
     [(bob 100, SubmitData 1 [5]), (alice, SetCooldownSeconds 115792089237316195423570985008687907853269984665640564039457584007913129639935)]"

text \<open>
  The provider has submitted the handles of 10, 20 and 30 to batch 1; the owner has closed
  it; the provider has requested its decryption (request id 0); the oracle has called
  back with the cleartext 20000 and a proof that verifies.
\<close>

definition filled :: "uint256 storage" where
  "filled = run testFHE opened [(bob 100, SubmitData 1 [11, 21, 31])]"

definition closed1 :: "uint256 storage" where
  "closed1 = run testFHE filled [(alice, CloseBatch 1)]"

definition requested :: "uint256 storage" where
  "requested = run testFHE closed1 [(bob 200, RequestDiscovery 1)]"

definition cleartext20000 :: bytes where
  "cleartext20000 =
     [0, 0, 0, 0, 0, 0, 0, 0, 0, 0, 0, 0, 0, 0, 0, 0,
      0, 0, 0, 0, 0, 0, 0, 0, 0, 0, 0, 0, 0, 0, 78, 32]"

definition completed :: "uint256 storage" where
  "completed = run testFHE requested [(alice, MyCallback 0 cleartext20000 [0])]"

text \<open>
  The storage after the request, with a fourth handle put into the closed batch by hand:
  no transaction does this, it stands for data that changed under the request.
\<close>

definition tampered :: "uint256 storage" where
  "tampered = requested\<lparr>encryptedDataBatches :=
     (encryptedDataBatches requested)(1 := [11, 21, 31, 41])\<rparr>"

subsection \<open>Predicates on storages and traces\<close>

text \<open>Every open batch has an id that was already allocated.\<close>

definition open_bounded :: "'h storage \<Rightarrow> bool" where
  "open_bounded s \<longleftrightarrow> (\<forall>b. isBatchOpen s b \<longrightarrow> b \<le> currentBatchId s)"

text \<open>Every request id not yet handed out still has the zero entry.\<close>

definition unissued_blank :: "'h storage \<Rightarrow> bool" where
  "unissued_blank s \<longleftrightarrow>
     (\<forall>r. counterRequest s \<le> r \<longrightarrow>
        decryptionContexts s r = \<lparr>batchId = 0, stateHash = 0, processed = False\<rparr>)"

text \<open>
  A call that hands the ownership to the zero address and comes from the current owner,
  and a trace in which no such call occurs.
\<close>

fun renounces :: "'h storage \<Rightarrow> env \<times> 'h call \<Rightarrow> bool" where
  "renounces s (e, TransferOwnership a) = (a = 0 \<and> msg_sender e = owner s)"
| "renounces s (e, c) = False"

fun never_renounced :: "'h FHE \<Rightarrow> 'h storage \<Rightarrow> (env \<times> 'h call) list \<Rightarrow> bool" where
  "never_renounced L s [] = True"
| "never_renounced L s (tx # txs) =
     (\<not> renounces s tx \<and> never_renounced L (transact L s tx) txs)"

section \<open>Properties\<close>

subsection \<open>Shared lemmas\<close>

lemma sum_loop_foldl: "sum_loop L acc xs = foldl (fhe_add L) acc xs"
  by (induction xs arbitrary: acc) simp_all

lemma myCallback_unfold:
  "myCallback L e rid ct pf s =
     (if processed (decryptionContexts s rid) then Inl ReplayDetected
      else if hashCiphertexts L
                [scaled_average L (encryptedDataBatches s (batchId (decryptionContexts s rid)))]
              \<noteq> stateHash (decryptionContexts s rid) then Inl StateMismatch
      else if \<not> checkSignatures L rid ct pf then Inl InvalidProof
      else case abi_decode_uint256 ct of
        None \<Rightarrow> Inl DecodeRevert
      | Some r \<Rightarrow>
          Inr (s\<lparr>decryptionContexts := (decryptionContexts s)
                   (rid := (decryptionContexts s rid)\<lparr>processed := True\<rparr>)\<rparr>,
               [DecryptionCompleted rid (batchId (decryptionContexts s rid)) r]))"
  by (simp add: myCallback_def scaled_average_def sum_loop_foldl Let_def split: option.split)

lemma word_less_sum:
  fixes t a b :: uint256
  assumes "unat a + unat b < 2 ^ 256"
  shows "t < a + b \<longleftrightarrow> unat t < unat a + unat b"
  using assms by (simp add: word_less_nat_alt unat_add_lem [THEN iffD1])

lemma submissionRateLimited_unfold:
  "submissionRateLimited e s =
     (if 2 ^ 256 \<le> unat (lastSubmissionTime s (msg_sender e)) + unat (cooldownSeconds s)
      then Inl Panic
      else if unat (block_timestamp e)
              < unat (lastSubmissionTime s (msg_sender e)) + unat (cooldownSeconds s)
      then Inl CooldownActive
      else Inr (s\<lparr>lastSubmissionTime :=
                    (lastSubmissionTime s)(msg_sender e := block_timestamp e)\<rparr>))"
  by (simp add: submissionRateLimited_def checked_add_def word_less_sum)

lemma decryptionRequestRateLimited_unfold:
  "decryptionRequestRateLimited e s =
     (if 2 ^ 256 \<le> unat (lastDecryptionRequestTime s (msg_sender e)) + unat (cooldownSeconds s)
      then Inl Panic
      else if unat (block_timestamp e)
              < unat (lastDecryptionRequestTime s (msg_sender e)) + unat (cooldownSeconds s)
      then Inl CooldownActive
      else Inr (s\<lparr>lastDecryptionRequestTime :=
                    (lastDecryptionRequestTime s)(msg_sender e := block_timestamp e)\<rparr>))"
  by (simp add: decryptionRequestRateLimited_def checked_add_def word_less_sum)

lemma unat_uint256_bound: "unat (t :: uint256) < 2 ^ 256"
  using unsigned_less [of t, where ?'a = nat] by simp

lemma submitData_loop_Inr:
  "submitData_loop L bid vs s = Inr s' \<longleftrightarrow>
     (\<forall>v \<in> set vs. isInitialized L v) \<and>
     s' = s\<lparr>encryptedDataBatches :=
              (encryptedDataBatches s)(bid := encryptedDataBatches s bid @ vs)\<rparr>"
  by (induction vs arbitrary: s) (auto simp: initIfNeeded_def)

lemma submitData_loop_Inl:
  "submitData_loop L bid vs s = Inl err \<longleftrightarrow>
     err = NotInitialized \<and> (\<exists>v \<in> set vs. \<not> isInitialized L v)"
  by (induction vs arbitrary: s) (auto simp: initIfNeeded_def)

lemma submitData_empty:
  assumes "isProvider s (msg_sender e)" and "\<not> paused s"
    and "unat (lastSubmissionTime s (msg_sender e)) + unat (cooldownSeconds s)
           \<le> unat (block_timestamp e)"
    and "isBatchOpen s bid"
  shows "submitData L e bid [] s =
           Inr (s\<lparr>lastSubmissionTime :=
                    (lastSubmissionTime s)(msg_sender e := block_timestamp e)\<rparr>,
                [DataSubmitted (msg_sender e) bid 0])"
proof -
  have "\<not> 2 ^ 256 \<le> unat (lastSubmissionTime s (msg_sender e)) + unat (cooldownSeconds s)"
    using assms(3) unat_uint256_bound [of "block_timestamp e"] by linarith
  then show ?thesis
    using assms by (simp add: submitData_def submissionRateLimited_unfold)
qed

lemma submitData_Inr:
  assumes "submitData L e bid vs s = Inr (s', evs)"
  shows "isProvider s (msg_sender e) \<and> \<not> paused s \<and> isBatchOpen s bid \<and>
         unat (lastSubmissionTime s (msg_sender e)) + unat (cooldownSeconds s)
           \<le> unat (block_timestamp e) \<and>
         (\<forall>v \<in> set vs. isInitialized L v) \<and>
         s' = s\<lparr>lastSubmissionTime :=
                  (lastSubmissionTime s)(msg_sender e := block_timestamp e),
                encryptedDataBatches :=
                  (encryptedDataBatches s)(bid := encryptedDataBatches s bid @ vs)\<rparr> \<and>
         evs = [DataSubmitted (msg_sender e) bid (of_nat (length vs))]"
  using assms
  by (auto simp: submitData_def submissionRateLimited_unfold submitData_loop_Inr
      split: if_splits sum.splits)

lemma submitData_uninitialized:
  assumes "\<exists>v \<in> set vs. \<not> isInitialized L v"
  shows "\<exists>err. submitData L e bid vs s = Inl err"
proof (cases "submitData L e bid vs s")
  case (Inl err)
  then show ?thesis by blast
next
  case (Inr p)
  then have "\<forall>v \<in> set vs. isInitialized L v"
    using submitData_Inr [of L e bid vs s "fst p" "snd p"] by simp
  with assms show ?thesis by blast
qed

lemma submitData_NotInitialized:
  assumes "isProvider s (msg_sender e)" and "\<not> paused s"
    and "unat (lastSubmissionTime s (msg_sender e)) + unat (cooldownSeconds s)
           \<le> unat (block_timestamp e)"
    and "isBatchOpen s bid"
    and "\<exists>v \<in> set vs. \<not> isInitialized L v"
  shows "submitData L e bid vs s = Inl NotInitialized"
proof -
  have "\<not> 2 ^ 256 \<le> unat (lastSubmissionTime s (msg_sender e)) + unat (cooldownSeconds s)"
    using assms(3) unat_uint256_bound [of "block_timestamp e"] by linarith
  moreover have "submitData_loop L bid vs
      (s\<lparr>lastSubmissionTime := (lastSubmissionTime s)(msg_sender e := block_timestamp e)\<rparr>)
      = Inl NotInitialized"
    using assms(5) by (simp add: submitData_loop_Inl)
  ultimately show ?thesis
    using assms(1-4) by (simp add: submitData_def submissionRateLimited_unfold)
qed

lemma opened_eq:
  "opened =
     \<lparr>owner = 1, isProvider = (\<lambda>_. False)(2 := True), paused = False, cooldownSeconds = 0,
      lastSubmissionTime = (\<lambda>_. 0), lastDecryptionRequestTime = (\<lambda>_. 0),
      currentBatchId = 1, isBatchOpen = (\<lambda>_. False)(1 := True),
      encryptedDataBatches = (\<lambda>_. []),
      decryptionContexts = (\<lambda>_. \<lparr>batchId = 0, stateHash = 0, processed = False\<rparr>),
      counterRequest = 0\<rparr>"
  by (simp add: opened_def run_def transact_def fresh_def constructor_def alice_def
      addProvider_def openBatch_def checked_add_def)

lemma cooled_eq: "cooled = opened\<lparr>cooldownSeconds := 60\<rparr>"
  by (simp add: cooled_def run_def transact_def setCooldownSeconds_def opened_eq alice_def)

lemma saturated_eq:
  "saturated = opened\<lparr>cooldownSeconds := 115792089237316195423570985008687907853269984665640564039457584007913129639935,
      lastSubmissionTime := (lastSubmissionTime opened)(2 := 100),
      encryptedDataBatches := (encryptedDataBatches opened)(1 := [5])\<rparr>"
  by (simp add: saturated_def run_def transact_def setCooldownSeconds_def opened_eq alice_def
      submitData_def submissionRateLimited_unfold bob_def initIfNeeded_def testFHE_def)

lemma submit_good:
  "submitData testFHE (bob 100) 1 [5, 6] opened =
     Inr (opened\<lparr>lastSubmissionTime := (lastSubmissionTime opened)(2 := 100),
                 encryptedDataBatches := (encryptedDataBatches opened)(1 := [5, 6])\<rparr>,
          [DataSubmitted 2 1 2])"
  by (simp add: submitData_def submissionRateLimited_unfold opened_eq bob_def initIfNeeded_def
      testFHE_def)

lemma cooled_first:
  "submitData testFHE (bob 100) 1 [5] cooled =
     Inr (cooled\<lparr>lastSubmissionTime := (lastSubmissionTime cooled)(2 := 100),
                 encryptedDataBatches := (encryptedDataBatches cooled)(1 := [5])\<rparr>,
          [DataSubmitted 2 1 1])"
  by (simp add: submitData_def submissionRateLimited_unfold cooled_eq opened_eq bob_def
      initIfNeeded_def testFHE_def)

lemma checked_add_one:
  assumes "checked_add a 1 = Some n"
  shows "n = a + 1" and "a < n"
proof -
  from assms have r: "unat a + 1 < 2 ^ 256" and n: "n = a + 1"
    by (auto simp: checked_add_def split: if_splits)
  from n show "n = a + 1" .
  have "unat (a + 1) = unat a + unat (1 :: uint256)"
    using r by (simp add: unat_add_lem [THEN iffD1])
  then show "a < n"
    by (simp add: n word_less_nat_alt)
qed

lemma myCallback_Inr:
  assumes "myCallback L e rid ct pf s = Inr (s', evs)"
  shows "\<not> processed (decryptionContexts s rid) \<and>
         hashCiphertexts L
           [scaled_average L (encryptedDataBatches s (batchId (decryptionContexts s rid)))]
           = stateHash (decryptionContexts s rid) \<and>
         checkSignatures L rid ct pf \<and>
         s' = s\<lparr>decryptionContexts := (decryptionContexts s)
                  (rid := (decryptionContexts s rid)\<lparr>processed := True\<rparr>)\<rparr> \<and>
         (\<exists>r. abi_decode_uint256 ct = Some r \<and>
              evs = [DecryptionCompleted rid (batchId (decryptionContexts s rid)) r])"
  using assms by (auto simp: myCallback_unfold split: if_splits option.splits)

lemma requestDiscovery_Inr:
  assumes "requestDiscovery L e bid s = Inr (s', evs)"
  shows "isProvider s (msg_sender e) \<and> \<not> paused s \<and> \<not> isBatchOpen s bid \<and>
         encryptedDataBatches s bid \<noteq> [] \<and>
         unat (lastDecryptionRequestTime s (msg_sender e)) + unat (cooldownSeconds s)
           \<le> unat (block_timestamp e) \<and>
         counterRequest s < counterRequest s + 1 \<and>
         s' = s\<lparr>lastDecryptionRequestTime :=
                  (lastDecryptionRequestTime s)(msg_sender e := block_timestamp e),
                counterRequest := counterRequest s + 1,
                decryptionContexts := (decryptionContexts s)
                  (counterRequest s :=
                     \<lparr>batchId = bid,
                      stateHash = hashCiphertexts L [scaled_average L (encryptedDataBatches s bid)],
                      processed = False\<rparr>)\<rparr> \<and>
         evs = [DecryptionRequested (counterRequest s) bid]"
  using assms
  by (auto simp: requestDiscovery_def decryptionRequestRateLimited_unfold requestDecryption_def
      scaled_average_def sum_loop_foldl Let_def
      split: if_splits sum.splits option.splits dest: checked_add_one)

lemma exec_Inr_batches:
  assumes "exec L e c s = Inr (s', evs)"
  shows "(c = OpenBatch \<and> currentBatchId s < currentBatchId s' \<and>
          currentBatchId s' = currentBatchId s + 1 \<and>
          isBatchOpen s' = (isBatchOpen s)(currentBatchId s' := True)) \<or>
         (\<exists>b. c = CloseBatch b \<and> currentBatchId s' = currentBatchId s \<and>
          isBatchOpen s' = (isBatchOpen s)(b := False)) \<or>
         (currentBatchId s' = currentBatchId s \<and> isBatchOpen s' = isBatchOpen s)"
proof (cases c)
  case OpenBatch
  with assms show ?thesis
    by (auto simp: openBatch_def split: if_splits option.splits dest: checked_add_one)
next
  case (SubmitData b vs)
  with assms show ?thesis using submitData_Inr [of L e b vs s s' evs] by simp
next
  case (RequestDiscovery b)
  with assms show ?thesis using requestDiscovery_Inr [of L e b s s' evs] by simp
next
  case (MyCallback r ct pf)
  with assms show ?thesis
    by (auto simp: myCallback_unfold split: if_splits option.splits)
qed (use assms in \<open>auto simp: transferOwnership_def addProvider_def removeProvider_def
      setPaused_def setCooldownSeconds_def closeBatch_def Let_def split: if_splits\<close>)

lemma exec_Inr_contexts:
  assumes "exec L e c s = Inr (s', evs)"
  shows "(\<exists>b. c = RequestDiscovery b \<and> counterRequest s < counterRequest s' \<and>
            counterRequest s' = counterRequest s + 1 \<and>
            decryptionContexts s' = (decryptionContexts s)
              (counterRequest s :=
                 \<lparr>batchId = b,
                  stateHash = hashCiphertexts L [scaled_average L (encryptedDataBatches s b)],
                  processed = False\<rparr>)) \<or>
         (\<exists>r ct pf. c = MyCallback r ct pf \<and> counterRequest s' = counterRequest s \<and>
            hashCiphertexts L
              [scaled_average L (encryptedDataBatches s (batchId (decryptionContexts s r)))]
              = stateHash (decryptionContexts s r) \<and>
            decryptionContexts s' = (decryptionContexts s)
              (r := (decryptionContexts s r)\<lparr>processed := True\<rparr>)) \<or>
         (counterRequest s' = counterRequest s \<and> decryptionContexts s' = decryptionContexts s)"
proof (cases c)
  case OpenBatch
  with assms show ?thesis
    by (auto simp: openBatch_def split: if_splits option.splits)
next
  case (SubmitData b vs)
  with assms show ?thesis using submitData_Inr [of L e b vs s s' evs] by simp
next
  case (RequestDiscovery b)
  with assms show ?thesis using requestDiscovery_Inr [of L e b s s' evs] by simp
next
  case (MyCallback r ct pf)
  with assms show ?thesis using myCallback_Inr [of L e r ct pf s s' evs] by simp
qed (use assms in \<open>auto simp: transferOwnership_def addProvider_def removeProvider_def
      setPaused_def setCooldownSeconds_def closeBatch_def Let_def split: if_splits\<close>)

lemma transact_cases:
  "transact L s (e, c) = s \<or> (\<exists>evs. exec L e c s = Inr (transact L s (e, c), evs))"
  by (cases "exec L e c s") (auto simp: transact_def)

lemma run_append: "run L s (xs @ ys) = run L (run L s xs) ys"
  by (simp add: run_def)

lemma filled_eq:
  "filled = opened\<lparr>lastSubmissionTime := (\<lambda>_. 0)(2 := 100),
                    encryptedDataBatches := (\<lambda>_. [])(1 := [11, 21, 31])\<rparr>"
  by (simp add: filled_def run_def transact_def submitData_def submissionRateLimited_unfold
      opened_eq bob_def initIfNeeded_def testFHE_def)

lemma closed1_eq: "closed1 = filled\<lparr>isBatchOpen := (\<lambda>_. False)(1 := False)\<rparr>"
  by (simp add: closed1_def run_def transact_def closeBatch_def filled_eq opened_eq alice_def)

lemma average_closed1:
  "scaled_average testFHE [11, 21, 31] = 20001"
  by (simp add: scaled_average_def testFHE_def)

lemma requested_eq:
  "requested = closed1\<lparr>lastDecryptionRequestTime := (\<lambda>_. 0)(2 := 200),
       counterRequest := 1,
       decryptionContexts := (\<lambda>_. \<lparr>batchId = 0, stateHash = 0, processed = False\<rparr>)
          (0 := \<lparr>batchId = 1, stateHash = 40387, processed = False\<rparr>)\<rparr>"
  by (simp add: requested_def run_def transact_def requestDiscovery_def
      decryptionRequestRateLimited_unfold requestDecryption_def checked_add_def
      hashCiphertexts_def closed1_eq filled_eq opened_eq bob_def testFHE_def)

lemma decode20000: "abi_decode_uint256 cleartext20000 = Some 20000"
  by (simp add: abi_decode_uint256_def cleartext20000_def)

lemma callback_requested:
  "myCallback testFHE alice 0 cleartext20000 [0] requested =
     Inr (requested\<lparr>decryptionContexts :=
            (\<lambda>_. \<lparr>batchId = 0, stateHash = 0, processed = False\<rparr>)
              (0 := \<lparr>batchId = 1, stateHash = 40387, processed = True\<rparr>)\<rparr>,
          [DecryptionCompleted 0 1 20000])"
  by (simp add: myCallback_unfold decode20000 average_closed1 hashCiphertexts_def
      requested_eq closed1_eq filled_eq opened_eq)
     (simp add: testFHE_def)

lemma completed_eq:
  "completed = requested\<lparr>decryptionContexts :=
            (\<lambda>_. \<lparr>batchId = 0, stateHash = 0, processed = False\<rparr>)
              (0 := \<lparr>batchId = 1, stateHash = 40387, processed = True\<rparr>)\<rparr>"
  by (simp add: completed_def run_def transact_def callback_requested)

lemma closeBatch_filled: "closeBatch alice 1 filled = Inr (closed1, [BatchClosed 1])"
  by (simp add: closeBatch_def closed1_eq filled_eq opened_eq alice_def)

lemma filled_run:
  "run testFHE (fst (constructor alice))
     [(alice, AddProvider 2), (alice, OpenBatch), (bob 100, SubmitData 1 [11, 21, 31])] = filled"
  using run_append [of testFHE fresh "[(alice, AddProvider 2), (alice, OpenBatch)]"
      "[(bob 100, SubmitData 1 [11, 21, 31])]"]
  by (simp add: filled_def opened_def fresh_def)

lemma reopened_eq:
  "run testFHE closed1 [(alice, OpenBatch)] =
     closed1\<lparr>currentBatchId := 2, isBatchOpen := (\<lambda>_. False)(1 := False, 2 := True)\<rparr>"
  by (simp add: run_def transact_def openBatch_def checked_add_def closed1_eq filled_eq
      opened_eq alice_def)

lemma exec_Inr_owner:
  assumes "exec L e c s = Inr (s', evs)"
  shows "(\<exists>a. c = TransferOwnership a \<and> msg_sender e = owner s \<and> owner s' = a) \<or>
         owner s' = owner s"
proof (cases c)
  case OpenBatch
  with assms show ?thesis
    by (auto simp: openBatch_def split: if_splits option.splits)
next
  case (SubmitData b vs)
  with assms show ?thesis using submitData_Inr [of L e b vs s s' evs] by simp
next
  case (RequestDiscovery b)
  with assms show ?thesis using requestDiscovery_Inr [of L e b s s' evs] by simp
next
  case (MyCallback r ct pf)
  with assms show ?thesis using myCallback_Inr [of L e r ct pf s s' evs] by simp
qed (use assms in \<open>auto simp: transferOwnership_def addProvider_def removeProvider_def
      setPaused_def setCooldownSeconds_def closeBatch_def Let_def split: if_splits\<close>)

lemma request_closed1:
  "requestDiscovery testFHE (bob 200) 1 closed1 = Inr (requested, [DecryptionRequested 0 1])"
  by (simp add: requestDiscovery_def decryptionRequestRateLimited_unfold requestDecryption_def
      checked_add_def hashCiphertexts_def requested_eq closed1_eq filled_eq opened_eq bob_def
      testFHE_def)

lemma requestDiscovery_empty:
  assumes "isProvider s (msg_sender e)" and "\<not> paused s"
    and "unat (lastDecryptionRequestTime s (msg_sender e)) + unat (cooldownSeconds s)
           \<le> unat (block_timestamp e)"
    and "encryptedDataBatches s bid = []"
  shows "requestDiscovery L e bid s = Inl InvalidBatch"
proof -
  have "\<not> 2 ^ 256 \<le> unat (lastDecryptionRequestTime s (msg_sender e)) + unat (cooldownSeconds s)"
    using assms(3) unat_uint256_bound [of "block_timestamp e"] by linarith
  with assms show ?thesis
    by (simp add: requestDiscovery_def decryptionRequestRateLimited_unfold)
qed

lemma tampered_digest:
  "\<not> processed (decryptionContexts tampered 0) \<and>
   hashCiphertexts testFHE
     [scaled_average testFHE (encryptedDataBatches tampered (batchId (decryptionContexts tampered 0)))]
     \<noteq> stateHash (decryptionContexts tampered 0)"
  by (simp add: tampered_def requested_eq closed1_eq filled_eq opened_eq hashCiphertexts_def
      scaled_average_def testFHE_def)

lemma odd_word_nonzero: "2 * x + 1 \<noteq> (0 :: uint256)"
proof
  assume "2 * x + 1 = (0 :: uint256)"
  then have "even (2 * x + 1 :: uint256)" by simp
  then show False by simp
qed

lemma testFHE_digest_nonzero: "keccak256_encode testFHE bs a \<noteq> 0"
  using odd_word_nonzero [of "sum_list bs + ucast a"] by (simp add: testFHE_def)

lemma requested_run:
  "run testFHE (fst (constructor alice))
     [(alice, AddProvider 2), (alice, OpenBatch), (bob 100, SubmitData 1 [11, 21, 31]),
      (alice, CloseBatch 1), (bob 200, RequestDiscovery 1)] = requested"
  using run_append [of testFHE "fst (constructor alice)"
      "[(alice, AddProvider 2), (alice, OpenBatch), (bob 100, SubmitData 1 [11, 21, 31])]"
      "[(alice, CloseBatch 1), (bob 200, RequestDiscovery 1)]"]
    run_append [of testFHE filled "[(alice, CloseBatch 1)]" "[(bob 200, RequestDiscovery 1)]"]
  by (simp add: filled_run closed1_def requested_def)

subsection \<open>Request ids not yet handed out\<close>

text \<open>
  When the digest is never the zero word, as is taken for granted of \<^verbatim>\<open>keccak256\<close>, a
  callback can only succeed for a request id that was handed out: in every storage
  reached from the constructor the other ids still have the zero entry.
\<close>

lemma transact_unissued_blank:
  assumes nz: "\<And>bs a. keccak256_encode L bs a \<noteq> 0" and blank: "unissued_blank s"
  shows "unissued_blank (transact L s tx)"
proof -
  obtain e c where tx: "tx = (e, c)" by (cases tx)
  have hz: "hashCiphertexts L cts \<noteq> 0" for cts
    using nz by (simp add: hashCiphertexts_def)
  from transact_cases [of L s e c] show ?thesis
  proof
    assume "transact L s (e, c) = s"
    with blank tx show ?thesis by simp
  next
    let ?t = "transact L s (e, c)"
    assume "\<exists>evs. exec L e c s = Inr (?t, evs)"
    then obtain evs where "exec L e c s = Inr (?t, evs)" ..
    from exec_Inr_contexts [OF this]
    consider (request) b where "counterRequest s < counterRequest ?t"
        "decryptionContexts ?t = (decryptionContexts s)
           (counterRequest s :=
              \<lparr>batchId = b,
               stateHash = hashCiphertexts L [scaled_average L (encryptedDataBatches s b)],
               processed = False\<rparr>)"
      | (callback) r where "counterRequest ?t = counterRequest s"
        "hashCiphertexts L
           [scaled_average L (encryptedDataBatches s (batchId (decryptionContexts s r)))]
           = stateHash (decryptionContexts s r)"
        "decryptionContexts ?t = (decryptionContexts s)
           (r := (decryptionContexts s r)\<lparr>processed := True\<rparr>)"
      | (other) "counterRequest ?t = counterRequest s"
        "decryptionContexts ?t = decryptionContexts s"
      by blast
    then have "unissued_blank ?t"
    proof cases
      case request
      show ?thesis
        unfolding unissued_blank_def
      proof (intro allI impI)
        fix r assume "counterRequest ?t \<le> r"
        with request(1) have "counterRequest s < r" by simp
        then have "r \<noteq> counterRequest s" "counterRequest s \<le> r" by simp_all
        with blank show "decryptionContexts ?t r
            = \<lparr>batchId = 0, stateHash = 0, processed = False\<rparr>"
          by (simp add: request(2) unissued_blank_def)
      qed
    next
      case callback
      from callback(2) hz have "stateHash (decryptionContexts s r) \<noteq> 0"
        by metis
      with blank have issued: "\<not> counterRequest s \<le> r"
        by (auto simp: unissued_blank_def)
      show ?thesis
        unfolding unissued_blank_def
      proof (intro allI impI)
        fix r' assume "counterRequest ?t \<le> r'"
        with callback(1) have le: "counterRequest s \<le> r'" by simp
        with issued have "r' \<noteq> r" by auto
        with blank le show "decryptionContexts ?t r'
            = \<lparr>batchId = 0, stateHash = 0, processed = False\<rparr>"
          by (simp add: callback(3) unissued_blank_def)
      qed
    next
      case other
      with blank show ?thesis by (simp add: unissued_blank_def)
    qed
    then show ?thesis by (simp add: tx)
  qed
qed

lemma run_unissued_blank:
  assumes "\<And>bs a. keccak256_encode L bs a \<noteq> 0"
  shows "unissued_blank s \<Longrightarrow> unissued_blank (run L s txs)"
  unfolding run_def
  by (induction txs arbitrary: s) (simp_all add: transact_unissued_blank [OF assms])

lemma completed_request_was_issued:
  assumes "\<And>bs a. keccak256_encode L bs a \<noteq> 0"
    and "myCallback L e rid ct pf (run L (fst (constructor d)) txs) = Inr (s1, evs)"
  shows "rid < counterRequest (run L (fst (constructor d)) txs)"
proof (rule ccontr)
  let ?s = "run L (fst (constructor d)) txs"
  assume "\<not> rid < counterRequest ?s"
  then have "counterRequest ?s \<le> rid" by simp
  moreover have "unissued_blank ?s"
    by (rule run_unissued_blank [OF assms(1)]) (simp add: unissued_blank_def constructor_def)
  ultimately have "stateHash (decryptionContexts ?s rid) = 0"
    by (simp add: unissued_blank_def)
  with myCallback_Inr [OF assms(2)] assms(1) show False
    by (simp add: hashCiphertexts_def)
qed

subsection \<open>The replay check of the callback\<close>

text \<open>
  Claim C1, as the code has it. The callback is rejected with \<open>ReplayDetected\<close> exactly
  when the entry stored under the request id has its \<open>processed\<close> flag set. The storage
  keeps no record of which request ids exist: an id under which nothing was stored reads
  as the zero entry, whose flag is false, so it passes the replay check and is not
  answered with \<open>ReplayDetected\<close>. Provided the digest is never the zero word, every id
  the oracle has not handed out yet still has the zero entry in every storage reached
  from the constructor, and the callback for it is answered with \<open>StateMismatch\<close>.
\<close>

theorem myCallback_replay_iff:
  "(myCallback L e rid ct pf s = Inl ReplayDetected
      \<longleftrightarrow> processed (decryptionContexts s rid)) \<and>
   (decryptionContexts s rid = \<lparr>batchId = 0, stateHash = 0, processed = False\<rparr>
      \<longrightarrow> myCallback L e rid ct pf s \<noteq> Inl ReplayDetected) \<and>
   ((\<forall>bs a. keccak256_encode L bs a \<noteq> 0) \<and>
    counterRequest (run L (fst (constructor d)) txs) \<le> rid
      \<longrightarrow> decryptionContexts (run L (fst (constructor d)) txs) rid
            = \<lparr>batchId = 0, stateHash = 0, processed = False\<rparr> \<and>
          myCallback L e rid ct pf (run L (fst (constructor d)) txs) = Inl StateMismatch)"
proof (intro conjI impI)
  show iff: "myCallback L e rid ct pf s = Inl ReplayDetected
      \<longleftrightarrow> processed (decryptionContexts s rid)" for s :: "'a storage"
    by (simp add: myCallback_unfold split: option.split)
  assume "decryptionContexts s rid = \<lparr>batchId = 0, stateHash = 0, processed = False\<rparr>"
  then show "myCallback L e rid ct pf s \<noteq> Inl ReplayDetected"
    by (simp add: iff)
next
  let ?s = "run L (fst (constructor d)) txs"
  assume a: "(\<forall>bs a. keccak256_encode L bs a \<noteq> 0) \<and> counterRequest ?s \<le> rid"
  then have nz: "keccak256_encode L bs a \<noteq> 0" for bs a by blast
  have "unissued_blank (fst (constructor d) :: 'a storage)"
    by (simp add: unissued_blank_def constructor_def)
  then have "unissued_blank ?s"
    by (rule run_unissued_blank [OF nz])
  with a show zero: "decryptionContexts ?s rid
      = \<lparr>batchId = 0, stateHash = 0, processed = False\<rparr>"
    by (simp add: unissued_blank_def)
  have "hashCiphertexts L cts \<noteq> 0" for cts
    using nz by (simp add: hashCiphertexts_def)
  with zero show "myCallback L e rid ct pf ?s = Inl StateMismatch"
    by (simp add: myCallback_unfold)
qed

theorem myCallback_replay_iff_witness:
  "myCallback testFHE (bob 400) 0 cleartext20000 [0] completed = Inl ReplayDetected \<and>
   myCallback testFHE alice 7 [] [] fresh \<noteq> Inl ReplayDetected \<and>
   counterRequest requested = 1 \<and>
   myCallback testFHE alice 1 cleartext20000 [1] requested = Inl StateMismatch"
proof -
  have a: "myCallback testFHE (bob 400) 0 cleartext20000 [0] completed = Inl ReplayDetected"
    using myCallback_replay_iff [where L = testFHE and e = "bob 400" and rid = 0
        and ct = cleartext20000 and pf = "[0]" and s = completed]
    by (simp add: completed_eq)
  have b: "myCallback testFHE alice 7 [] [] fresh \<noteq> Inl ReplayDetected"
    using myCallback_replay_iff [where L = testFHE and e = alice and rid = 7
        and ct = "[]" and pf = "[]" and s = fresh]
    by (simp add: fresh_def constructor_def)
  have c: "counterRequest requested = 1"
    by (simp add: requested_eq)
  have "(\<forall>bs a. keccak256_encode testFHE bs a \<noteq> 0) \<and> counterRequest requested \<le> 1"
    by (simp add: testFHE_digest_nonzero c)
  then have d: "myCallback testFHE alice 1 cleartext20000 [1] requested = Inl StateMismatch"
    using myCallback_replay_iff [where L = testFHE and e = alice and rid = 1
        and ct = cleartext20000 and pf = "[1]" and d = alice
        and txs = "[(alice, AddProvider 2), (alice, OpenBatch),
                    (bob 100, SubmitData 1 [11, 21, 31]),
                    (alice, CloseBatch 1), (bob 200, RequestDiscovery 1)]"]
    by (simp only: requested_run) blast
  from a b c d show ?thesis by blast
qed

text \<open>
  Claim C1 as stated fails: on the freshly constructed contract no request was ever
  issued, and the callback for request id 7 is answered with \<open>StateMismatch\<close>, not with
  \<open>ReplayDetected\<close>.
\<close>

theorem unissued_request_not_replay:
  "counterRequest fresh = 0 \<and> myCallback testFHE alice 7 [] [] fresh = Inl StateMismatch"
  by (simp add: myCallback_unfold fresh_def constructor_def testFHE_def hashCiphertexts_def
      scaled_average_def)

subsection \<open>The callback and its caller\<close>

text \<open>
  Claim C9. The callback does not look at its caller: two calls in the same storage with
  the same request id, cleartexts and proof give the same result and the same emitted
  events whoever sends them (and whenever), and leave the same storage behind.
\<close>

theorem myCallback_caller_independent:
  "myCallback L e1 rid ct pf s = myCallback L e2 rid ct pf s \<and>
   transact L s (e1, MyCallback rid ct pf) = transact L s (e2, MyCallback rid ct pf)"
  by (simp add: myCallback_def transact_def)

theorem myCallback_caller_independent_witness:
  "myCallback testFHE \<lparr>msg_sender = 99, block_timestamp = 12345\<rparr> 0 cleartext20000 [0] requested
     = Inr (completed, [DecryptionCompleted 0 1 20000])"
  using myCallback_caller_independent [of testFHE "\<lparr>msg_sender = 99, block_timestamp = 12345\<rparr>"
      0 cleartext20000 "[0]" requested alice]
  by (simp add: callback_requested completed_eq)

subsection \<open>Submitting data\<close>

text \<open>
  Claim C10. A provider who is not rate limited submits the empty array to an open batch
  while the contract is not paused: the call succeeds, the batches are as before, the
  provider's submission time is stamped with the time of the call, and the event
  \<open>DataSubmitted\<close> carries the count 0.
\<close>

theorem submitData_empty_succeeds:
  assumes "isProvider s (msg_sender e)" and "\<not> paused s"
    and "unat (lastSubmissionTime s (msg_sender e)) + unat (cooldownSeconds s)
           \<le> unat (block_timestamp e)"
    and "isBatchOpen s bid"
  shows "submitData L e bid [] s =
           Inr (s\<lparr>lastSubmissionTime :=
                    (lastSubmissionTime s)(msg_sender e := block_timestamp e)\<rparr>,
                [DataSubmitted (msg_sender e) bid 0]) \<and>
         encryptedDataBatches (transact L s (e, SubmitData bid [])) = encryptedDataBatches s \<and>
         lastSubmissionTime (transact L s (e, SubmitData bid [])) (msg_sender e)
           = block_timestamp e"
  using submitData_empty [OF assms, of L] by (simp add: transact_def)

theorem submitData_empty_succeeds_witness:
  "submitData testFHE (bob 100) 1 [] opened =
     Inr (opened\<lparr>lastSubmissionTime := (lastSubmissionTime opened)(2 := 100)\<rparr>,
          [DataSubmitted 2 1 0]) \<and>
   encryptedDataBatches (transact testFHE opened (bob 100, SubmitData 1 [])) 1 = [] \<and>
   lastSubmissionTime (transact testFHE opened (bob 100, SubmitData 1 [])) 2 = 100"
  using submitData_empty_succeeds [of opened "bob 100" 1 testFHE]
  by (simp add: opened_eq bob_def)

text \<open>
  Claim C5. When a supplied handle is uninitialised \<open>submitData\<close> fails, and with
  \<open>NotInitialized\<close> once the provider, pause, cooldown and open-batch checks have passed.
  Whatever the failure, the transaction leaves the storage as it was, the handles pushed
  before the bad one included. On success the batch is the old batch followed by all the
  supplied handles, the other batches are untouched, and the one event emitted is
  \<open>DataSubmitted\<close> with the number of handles supplied.
\<close>

theorem submitData_all_or_nothing:
  "(isProvider s (msg_sender e) \<and> \<not> paused s \<and>
    unat (lastSubmissionTime s (msg_sender e)) + unat (cooldownSeconds s)
      \<le> unat (block_timestamp e) \<and>
    isBatchOpen s bid \<and> (\<exists>v \<in> set vs. \<not> isInitialized L v)
      \<longrightarrow> submitData L e bid vs s = Inl NotInitialized) \<and>
   ((\<exists>v \<in> set vs. \<not> isInitialized L v) \<longrightarrow> (\<exists>err. submitData L e bid vs s = Inl err)) \<and>
   (submitData L e bid vs s = Inl err
      \<longrightarrow> transact L s (e, SubmitData bid vs) = s) \<and>
   (submitData L e bid vs s = Inr (s', evs)
      \<longrightarrow> encryptedDataBatches s' bid = encryptedDataBatches s bid @ vs \<and>
          (\<forall>b. b \<noteq> bid \<longrightarrow> encryptedDataBatches s' b = encryptedDataBatches s b) \<and>
          evs = [DataSubmitted (msg_sender e) bid (of_nat (length vs))] \<and>
          transact L s (e, SubmitData bid vs) = s')"
proof (intro conjI impI)
  assume "isProvider s (msg_sender e) \<and> \<not> paused s \<and>
    unat (lastSubmissionTime s (msg_sender e)) + unat (cooldownSeconds s)
      \<le> unat (block_timestamp e) \<and>
    isBatchOpen s bid \<and> (\<exists>v \<in> set vs. \<not> isInitialized L v)"
  then show "submitData L e bid vs s = Inl NotInitialized"
    by (intro submitData_NotInitialized) simp_all
next
  assume "\<exists>v \<in> set vs. \<not> isInitialized L v"
  then show "\<exists>err. submitData L e bid vs s = Inl err"
    by (rule submitData_uninitialized)
next
  assume "submitData L e bid vs s = Inl err"
  then show "transact L s (e, SubmitData bid vs) = s"
    by (simp add: transact_def)
next
  assume ok: "submitData L e bid vs s = Inr (s', evs)"
  note r = submitData_Inr [OF ok]
  from r show "encryptedDataBatches s' bid = encryptedDataBatches s bid @ vs" by simp
  from r show "\<forall>b. b \<noteq> bid \<longrightarrow> encryptedDataBatches s' b = encryptedDataBatches s b" by simp
  from r show "evs = [DataSubmitted (msg_sender e) bid (of_nat (length vs))]" by simp
  from ok show "transact L s (e, SubmitData bid vs) = s'" by (simp add: transact_def)
qed

theorem submitData_all_or_nothing_witness:
  "submitData testFHE (bob 100) 1 [5, 0] opened = Inl NotInitialized \<and>
   transact testFHE opened (bob 100, SubmitData 1 [5, 0]) = opened \<and>
   encryptedDataBatches (transact testFHE opened (bob 100, SubmitData 1 [5, 0])) 1 = [] \<and>
   encryptedDataBatches (transact testFHE opened (bob 100, SubmitData 1 [5, 6])) 1 = [5, 6]"
proof -
  have bad: "\<exists>v \<in> set [5, 0 :: uint256]. \<not> isInitialized testFHE v"
    by (simp add: testFHE_def)
  have gates: "isProvider opened (msg_sender (bob 100)) \<and> \<not> paused opened \<and>
      unat (lastSubmissionTime opened (msg_sender (bob 100))) + unat (cooldownSeconds opened)
        \<le> unat (block_timestamp (bob 100)) \<and> isBatchOpen opened 1"
    by (simp add: opened_eq bob_def)
  note t1 = submitData_all_or_nothing [of opened "bob 100" 1 "[5, 0]" testFHE NotInitialized]
  note t2 = submitData_all_or_nothing [of opened "bob 100" 1 "[5, 6]" testFHE _
      "opened\<lparr>lastSubmissionTime := (lastSubmissionTime opened)(2 := 100),
              encryptedDataBatches := (encryptedDataBatches opened)(1 := [5, 6])\<rparr>"
      "[DataSubmitted 2 1 2]"]
  from t1 bad gates have a: "submitData testFHE (bob 100) 1 [5, 0] opened = Inl NotInitialized"
    by blast
  with t1 have b: "transact testFHE opened (bob 100, SubmitData 1 [5, 0]) = opened"
    by blast
  from t2 submit_good
  have c: "encryptedDataBatches (transact testFHE opened (bob 100, SubmitData 1 [5, 6])) 1
             = encryptedDataBatches opened 1 @ [5, 6]"
    by simp
  show ?thesis using a b c by (simp add: opened_eq)
qed

subsection \<open>The rate limiter\<close>

text \<open>
  Claim C7, as the code has it. The sum \<open>last + cooldownSeconds\<close> is a checked \<open>uint256\<close>
  addition. Where it stays in range, the check fails with \<open>CooldownActive\<close> exactly when
  the time of the call is below it, and otherwise stamps the time of the call; where it
  leaves the range, the call reverts with the arithmetic panic. The same holds for both
  action kinds. A call that reverts leaves both timestamps as they were. After a
  successful \<open>submitData\<close> at time \<open>t\<close> under cooldown \<open>C\<close> (with \<open>t + C\<close> in range), a
  second one by the same provider before \<open>t + C\<close> fails with \<open>CooldownActive\<close>, and one at
  \<open>t + C\<close> or later passes the cooldown check.
\<close>

theorem rate_limiter_check_and_stamp:
  "(submissionRateLimited e s = Inl CooldownActive \<longleftrightarrow>
      unat (lastSubmissionTime s (msg_sender e)) + unat (cooldownSeconds s) < 2 ^ 256 \<and>
      unat (block_timestamp e)
        < unat (lastSubmissionTime s (msg_sender e)) + unat (cooldownSeconds s)) \<and>
   (submissionRateLimited e s = Inl Panic \<longleftrightarrow>
      2 ^ 256 \<le> unat (lastSubmissionTime s (msg_sender e)) + unat (cooldownSeconds s)) \<and>
   (unat (lastSubmissionTime s (msg_sender e)) + unat (cooldownSeconds s)
      \<le> unat (block_timestamp e) \<longrightarrow>
    submissionRateLimited e s =
      Inr (s\<lparr>lastSubmissionTime :=
               (lastSubmissionTime s)(msg_sender e := block_timestamp e)\<rparr>)) \<and>
   (decryptionRequestRateLimited e s = Inl CooldownActive \<longleftrightarrow>
      unat (lastDecryptionRequestTime s (msg_sender e)) + unat (cooldownSeconds s) < 2 ^ 256 \<and>
      unat (block_timestamp e)
        < unat (lastDecryptionRequestTime s (msg_sender e)) + unat (cooldownSeconds s)) \<and>
   (decryptionRequestRateLimited e s = Inl Panic \<longleftrightarrow>
      2 ^ 256 \<le> unat (lastDecryptionRequestTime s (msg_sender e)) + unat (cooldownSeconds s)) \<and>
   (unat (lastDecryptionRequestTime s (msg_sender e)) + unat (cooldownSeconds s)
      \<le> unat (block_timestamp e) \<longrightarrow>
    decryptionRequestRateLimited e s =
      Inr (s\<lparr>lastDecryptionRequestTime :=
               (lastDecryptionRequestTime s)(msg_sender e := block_timestamp e)\<rparr>)) \<and>
   (exec L e c s = Inl err \<longrightarrow>
      lastSubmissionTime (transact L s (e, c)) = lastSubmissionTime s \<and>
      lastDecryptionRequestTime (transact L s (e, c)) = lastDecryptionRequestTime s) \<and>
   (submitData L e bid vs s = Inr (s1, evs) \<and> msg_sender e2 = msg_sender e \<and>
    unat (block_timestamp e) + unat (cooldownSeconds s) < 2 ^ 256 \<and>
    unat (block_timestamp e2) < unat (block_timestamp e) + unat (cooldownSeconds s) \<longrightarrow>
      submitData L e2 bid2 vs2 s1 = Inl CooldownActive) \<and>
   (submitData L e bid vs s = Inr (s1, evs) \<and> msg_sender e2 = msg_sender e \<and>
    unat (block_timestamp e) + unat (cooldownSeconds s) \<le> unat (block_timestamp e2) \<longrightarrow>
      submissionRateLimited e2 s1 =
        Inr (s1\<lparr>lastSubmissionTime :=
                  (lastSubmissionTime s1)(msg_sender e2 := block_timestamp e2)\<rparr>))"
proof -
  have nb: "\<not> 2 ^ 256 \<le> a + b" if "a + b \<le> unat t" for a b and t :: uint256
    using that unat_uint256_bound [of t] by linarith
  have p1: "submissionRateLimited e s = Inl CooldownActive \<longleftrightarrow>
      unat (lastSubmissionTime s (msg_sender e)) + unat (cooldownSeconds s) < 2 ^ 256 \<and>
      unat (block_timestamp e)
        < unat (lastSubmissionTime s (msg_sender e)) + unat (cooldownSeconds s)"
    by (auto simp: submissionRateLimited_unfold)
  have p2: "submissionRateLimited e s = Inl Panic \<longleftrightarrow>
      2 ^ 256 \<le> unat (lastSubmissionTime s (msg_sender e)) + unat (cooldownSeconds s)"
    by (simp add: submissionRateLimited_unfold)
  have p3: "unat (lastSubmissionTime s (msg_sender e)) + unat (cooldownSeconds s)
      \<le> unat (block_timestamp e) \<longrightarrow>
    submissionRateLimited e s =
      Inr (s\<lparr>lastSubmissionTime :=
               (lastSubmissionTime s)(msg_sender e := block_timestamp e)\<rparr>)"
    using nb [of _ _ "block_timestamp e"] by (auto simp: submissionRateLimited_unfold)
  have p4: "decryptionRequestRateLimited e s = Inl CooldownActive \<longleftrightarrow>
      unat (lastDecryptionRequestTime s (msg_sender e)) + unat (cooldownSeconds s) < 2 ^ 256 \<and>
      unat (block_timestamp e)
        < unat (lastDecryptionRequestTime s (msg_sender e)) + unat (cooldownSeconds s)"
    by (auto simp: decryptionRequestRateLimited_unfold)
  have p5: "decryptionRequestRateLimited e s = Inl Panic \<longleftrightarrow>
      2 ^ 256 \<le> unat (lastDecryptionRequestTime s (msg_sender e)) + unat (cooldownSeconds s)"
    by (simp add: decryptionRequestRateLimited_unfold)
  have p6: "unat (lastDecryptionRequestTime s (msg_sender e)) + unat (cooldownSeconds s)
      \<le> unat (block_timestamp e) \<longrightarrow>
    decryptionRequestRateLimited e s =
      Inr (s\<lparr>lastDecryptionRequestTime :=
               (lastDecryptionRequestTime s)(msg_sender e := block_timestamp e)\<rparr>)"
    using nb [of _ _ "block_timestamp e"] by (auto simp: decryptionRequestRateLimited_unfold)
  have p7: "exec L e c s = Inl err \<longrightarrow>
      lastSubmissionTime (transact L s (e, c)) = lastSubmissionTime s \<and>
      lastDecryptionRequestTime (transact L s (e, c)) = lastDecryptionRequestTime s"
    by (simp add: transact_def)
  have p8: "submitData L e2 bid2 vs2 s1 = Inl CooldownActive"
    if ok: "submitData L e bid vs s = Inr (s1, evs)" and same: "msg_sender e2 = msg_sender e"
      and no: "unat (block_timestamp e) + unat (cooldownSeconds s) < 2 ^ 256"
      and early: "unat (block_timestamp e2) < unat (block_timestamp e) + unat (cooldownSeconds s)"
  proof -
    note r = submitData_Inr [OF ok]
    from r same have "isProvider s1 (msg_sender e2)" "\<not> paused s1"
      "lastSubmissionTime s1 (msg_sender e2) = block_timestamp e"
      "cooldownSeconds s1 = cooldownSeconds s"
      by simp_all
    with no early show ?thesis
      by (simp add: submitData_def submissionRateLimited_unfold)
  qed
  have p9: "submissionRateLimited e2 s1 =
        Inr (s1\<lparr>lastSubmissionTime :=
                  (lastSubmissionTime s1)(msg_sender e2 := block_timestamp e2)\<rparr>)"
    if ok: "submitData L e bid vs s = Inr (s1, evs)" and same: "msg_sender e2 = msg_sender e"
      and late: "unat (block_timestamp e) + unat (cooldownSeconds s) \<le> unat (block_timestamp e2)"
  proof -
    note r = submitData_Inr [OF ok]
    from r same have "lastSubmissionTime s1 (msg_sender e2) = block_timestamp e"
      "cooldownSeconds s1 = cooldownSeconds s"
      by simp_all
    with late nb [OF late] show ?thesis
      by (simp add: submissionRateLimited_unfold)
  qed
  from p1 p2 p3 p4 p5 p6 p7 p8 p9 show ?thesis by blast
qed

theorem rate_limiter_check_and_stamp_witness:
  "submissionRateLimited (bob 30) cooled = Inl CooldownActive \<and>
   lastSubmissionTime (transact testFHE cooled (bob 30, SubmitData 1 [5])) 2 = 0 \<and>
   submitData testFHE (bob 130) 1 [5]
     (transact testFHE cooled (bob 100, SubmitData 1 [5])) = Inl CooldownActive \<and>
   submissionRateLimited (bob 160) (transact testFHE cooled (bob 100, SubmitData 1 [5])) =
     Inr ((transact testFHE cooled (bob 100, SubmitData 1 [5]))
            \<lparr>lastSubmissionTime :=
               (lastSubmissionTime (transact testFHE cooled (bob 100, SubmitData 1 [5])))
                 (2 := 160)\<rparr>)"
proof -
  let ?s1 = "cooled\<lparr>lastSubmissionTime := (lastSubmissionTime cooled)(2 := 100),
                 encryptedDataBatches := (encryptedDataBatches cooled)(1 := [5])\<rparr>"
  have tr: "transact testFHE cooled (bob 100, SubmitData 1 [5]) = ?s1"
    using cooled_first by (simp add: transact_def)
  note early = rate_limiter_check_and_stamp [where e = "bob 30" and s = cooled and L = testFHE
      and c = "SubmitData 1 [5]" and err = CooldownActive]
  note pair = rate_limiter_check_and_stamp [where e = "bob 100" and s = cooled and L = testFHE
      and bid = 1 and vs = "[5]" and ?s1.0 = ?s1 and evs = "[DataSubmitted 2 1 1]"
      and ?bid2.0 = 1 and ?vs2.0 = "[5]"]
  have a: "submissionRateLimited (bob 30) cooled = Inl CooldownActive"
    using early by (simp add: cooled_eq opened_eq bob_def)
  have rej: "exec testFHE (bob 30) (SubmitData 1 [5]) cooled = Inl CooldownActive"
    using a by (simp add: submitData_def cooled_eq opened_eq bob_def)
  have b: "lastSubmissionTime (transact testFHE cooled (bob 30, SubmitData 1 [5])) 2 = 0"
    using early rej by (simp add: cooled_eq opened_eq)
  have c: "submitData testFHE (bob 130) 1 [5] ?s1 = Inl CooldownActive"
    using pair [where ?e2.0 = "bob 130"] cooled_first
    by (simp add: cooled_eq opened_eq bob_def)
  have d: "submissionRateLimited (bob 160) ?s1 =
      Inr (?s1\<lparr>lastSubmissionTime := (lastSubmissionTime ?s1)(2 := 160)\<rparr>)"
    using pair [where ?e2.0 = "bob 160"] cooled_first
    by (simp add: cooled_eq opened_eq bob_def)
  show ?thesis using a b c d by (simp only: tr)
qed

text \<open>
  Claim C7 as stated fails: with the last submission at 100 and the cooldown set to
  \<open>2^256 - 1\<close>, a call at time 200 is earlier than last + cooldown, yet it is answered with
  the arithmetic panic, not with \<open>CooldownActive\<close>.
\<close>

theorem cooldown_overflow_panics:
  "unat (block_timestamp (bob 200))
     < unat (lastSubmissionTime saturated (msg_sender (bob 200))) + unat (cooldownSeconds saturated) \<and>
   submissionRateLimited (bob 200) saturated = Inl Panic \<and>
   submitData testFHE (bob 200) 1 [5] saturated = Inl Panic"
  by (simp add: saturated_eq opened_eq bob_def submitData_def submissionRateLimited_unfold)

subsection \<open>Closed batches\<close>

lemma transact_open_bounded:
  assumes "open_bounded s"
  shows "open_bounded (transact L s tx)"
proof -
  obtain e c where tx: "tx = (e, c)" by (cases tx)
  from transact_cases [of L s e c] show ?thesis
  proof
    assume "transact L s (e, c) = s"
    with assms tx show ?thesis by simp
  next
    assume "\<exists>evs. exec L e c s = Inr (transact L s (e, c), evs)"
    then obtain evs where "exec L e c s = Inr (transact L s (e, c), evs)" ..
    from exec_Inr_batches [OF this] assms show ?thesis
      unfolding tx open_bounded_def
      by (auto simp: less_imp_le order.trans split: if_splits)
  qed
qed

lemma run_open_bounded: "open_bounded s \<Longrightarrow> open_bounded (run L s txs)"
  unfolding run_def
  by (induction txs arbitrary: s) (simp_all add: transact_open_bounded)

lemma constructor_open_bounded: "open_bounded (fst (constructor d))"
  by (simp add: open_bounded_def constructor_def)

lemma transact_closed:
  assumes "\<not> isBatchOpen s bid" and "bid \<le> currentBatchId s"
  shows "\<not> isBatchOpen (transact L s tx) bid \<and> bid \<le> currentBatchId (transact L s tx)"
proof -
  obtain e c where tx: "tx = (e, c)" by (cases tx)
  from transact_cases [of L s e c] show ?thesis
  proof
    assume "transact L s (e, c) = s"
    with assms tx show ?thesis by simp
  next
    assume "\<exists>evs. exec L e c s = Inr (transact L s (e, c), evs)"
    then obtain evs where "exec L e c s = Inr (transact L s (e, c), evs)" ..
    from exec_Inr_batches [OF this] assms show ?thesis
      unfolding tx by (auto simp: less_imp_le order.trans split: if_splits)
  qed
qed

lemma run_closed:
  "\<not> isBatchOpen s bid \<Longrightarrow> bid \<le> currentBatchId s \<Longrightarrow>
   \<not> isBatchOpen (run L s txs) bid \<and> bid \<le> currentBatchId (run L s txs)"
  unfolding run_def
proof (induction txs arbitrary: s)
  case Nil
  then show ?case by simp
next
  case (Cons tx txs)
  from transact_closed [OF Cons.prems, of L tx] Cons.IH [of "transact L s tx"]
  show ?case by simp
qed

lemma submitData_closed:
  assumes "\<not> isBatchOpen s bid"
  shows "\<exists>err. submitData L e bid vs s = Inl err"
    and "isProvider s (msg_sender e) \<Longrightarrow> \<not> paused s \<Longrightarrow>
         unat (lastSubmissionTime s (msg_sender e)) + unat (cooldownSeconds s)
           \<le> unat (block_timestamp e) \<Longrightarrow>
         submitData L e bid vs s = Inl InvalidBatch"
proof -
  show "\<exists>err. submitData L e bid vs s = Inl err"
  proof (cases "submitData L e bid vs s")
    case (Inr p)
    with assms show ?thesis
      using submitData_Inr [of L e bid vs s "fst p" "snd p"] by simp
  qed blast
next
  assume g: "isProvider s (msg_sender e)" "\<not> paused s"
    "unat (lastSubmissionTime s (msg_sender e)) + unat (cooldownSeconds s)
       \<le> unat (block_timestamp e)"
  have "\<not> 2 ^ 256 \<le> unat (lastSubmissionTime s (msg_sender e)) + unat (cooldownSeconds s)"
    using g(3) unat_uint256_bound [of "block_timestamp e"] by linarith
  with g assms show "submitData L e bid vs s = Inl InvalidBatch"
    by (simp add: submitData_def submissionRateLimited_unfold)
qed

text \<open>
  Claim C6. Take any storage reached from the constructor, and a \<open>closeBatch\<close> of a batch
  id that succeeds there. After any further sequence of transactions (reverted ones
  included, \<open>openBatch\<close> included) the batch is still not open, so every \<open>submitData\<close> to
  it fails; the failure is \<open>InvalidBatch\<close> whenever the caller gets past the provider,
  pause and cooldown checks that come first.
\<close>

theorem closed_batch_stays_closed:
  assumes "closeBatch e0 bid (run L (fst (constructor d)) pre) = Inr (s1, evs)"
  shows "\<not> isBatchOpen (run L s1 post) bid \<and>
         (\<exists>err. submitData L e bid vs (run L s1 post) = Inl err) \<and>
         (isProvider (run L s1 post) (msg_sender e) \<and> \<not> paused (run L s1 post) \<and>
          unat (lastSubmissionTime (run L s1 post) (msg_sender e))
            + unat (cooldownSeconds (run L s1 post)) \<le> unat (block_timestamp e)
          \<longrightarrow> submitData L e bid vs (run L s1 post) = Inl InvalidBatch)"
proof -
  let ?s0 = "run L (fst (constructor d)) pre"
  have ob: "open_bounded ?s0"
    by (rule run_open_bounded [OF constructor_open_bounded])
  from assms have was: "isBatchOpen ?s0 bid" and s1: "s1 = ?s0\<lparr>isBatchOpen := (isBatchOpen ?s0)(bid := False)\<rparr>"
    by (auto simp: closeBatch_def split: if_splits)
  from ob was have "bid \<le> currentBatchId ?s0"
    by (simp add: open_bounded_def)
  with s1 have "\<not> isBatchOpen s1 bid" "bid \<le> currentBatchId s1"
    by simp_all
  from run_closed [OF this, of L post] have c: "\<not> isBatchOpen (run L s1 post) bid" ..
  with submitData_closed [OF c, where L = L and e = e and vs = vs] show ?thesis by blast
qed

theorem closed_batch_stays_closed_witness:
  "closeBatch alice 1 filled = Inr (closed1, [BatchClosed 1]) \<and>
   isBatchOpen (run testFHE closed1 [(alice, OpenBatch)]) 2 \<and>
   submitData testFHE (bob 200) 1 [5] (run testFHE closed1 [(alice, OpenBatch)])
     = Inl InvalidBatch"
proof -
  have c: "closeBatch alice 1
      (run testFHE (fst (constructor alice))
         [(alice, AddProvider 2), (alice, OpenBatch), (bob 100, SubmitData 1 [11, 21, 31])])
      = Inr (closed1, [BatchClosed 1])"
    by (simp only: filled_run closeBatch_filled)
  have g: "isProvider (run testFHE closed1 [(alice, OpenBatch)]) (msg_sender (bob 200)) \<and>
      \<not> paused (run testFHE closed1 [(alice, OpenBatch)]) \<and>
      unat (lastSubmissionTime (run testFHE closed1 [(alice, OpenBatch)]) (msg_sender (bob 200)))
        + unat (cooldownSeconds (run testFHE closed1 [(alice, OpenBatch)]))
        \<le> unat (block_timestamp (bob 200))"
    by (simp only: reopened_eq) (simp add: closed1_eq filled_eq opened_eq bob_def)
  from closed_batch_stays_closed [OF c, where post = "[(alice, OpenBatch)]" and e = "bob 200"
      and vs = "[5]"] g
  have "submitData testFHE (bob 200) 1 [5] (run testFHE closed1 [(alice, OpenBatch)])
     = Inl InvalidBatch"
    by blast
  moreover have "isBatchOpen (run testFHE closed1 [(alice, OpenBatch)]) 2"
    by (simp only: reopened_eq) simp
  ultimately show ?thesis
    by (simp only: closeBatch_filled simp_thms)
qed

subsection \<open>Single use of a decryption request\<close>

lemma transact_processed:
  assumes "processed (decryptionContexts s rid)" and "rid < counterRequest s"
  shows "processed (decryptionContexts (transact L s tx) rid) \<and>
         rid < counterRequest (transact L s tx)"
proof -
  obtain e c where tx: "tx = (e, c)" by (cases tx)
  from transact_cases [of L s e c] show ?thesis
  proof
    assume "transact L s (e, c) = s"
    with assms tx show ?thesis by simp
  next
    assume "\<exists>evs. exec L e c s = Inr (transact L s (e, c), evs)"
    then obtain evs where "exec L e c s = Inr (transact L s (e, c), evs)" ..
    from exec_Inr_contexts [OF this] assms show ?thesis
      unfolding tx by (auto simp: order.strict_trans)
  qed
qed

lemma run_processed:
  "processed (decryptionContexts s rid) \<Longrightarrow> rid < counterRequest s \<Longrightarrow>
   processed (decryptionContexts (run L s txs) rid) \<and> rid < counterRequest (run L s txs)"
  unfolding run_def
proof (induction txs arbitrary: s)
  case Nil
  then show ?case by simp
next
  case (Cons tx txs)
  from transact_processed [OF Cons.prems, of L tx] Cons.IH [of "transact L s tx"]
  show ?case by simp
qed

text \<open>
  Claim C2. Once the callback for an issued request id has returned successfully, every
  later callback with that id, after any further sequence of transactions and whatever
  the caller, cleartexts and proof, fails with \<open>ReplayDetected\<close>. The request id is one
  the oracle has handed out (it is below the request counter): the request precedes its
  callback (and \<open>completed_request_was_issued\<close> above).
\<close>

theorem completed_request_replay:
  assumes "myCallback L e rid ct pf s = Inr (s1, evs)" and "rid < counterRequest s"
  shows "myCallback L e' rid ct' pf' (run L s1 post) = Inl ReplayDetected"
proof -
  from assms have "processed (decryptionContexts s1 rid)" "rid < counterRequest s1"
    by (auto simp: myCallback_unfold split: if_splits option.splits)
  from run_processed [OF this, of L post] show ?thesis
    by (simp add: myCallback_unfold)
qed

theorem completed_request_replay_witness:
  "myCallback testFHE alice 0 cleartext20000 [0] requested
     = Inr (completed, [DecryptionCompleted 0 1 20000]) \<and>
   0 < counterRequest requested \<and>
   myCallback testFHE (bob 400) 0 cleartext20000 [0]
     (run testFHE completed [(bob 300, RequestDiscovery 1), (alice, OpenBatch)])
     = Inl ReplayDetected"
proof -
  have a: "myCallback testFHE alice 0 cleartext20000 [0] requested
     = Inr (completed, [DecryptionCompleted 0 1 20000])"
    by (simp add: callback_requested completed_eq)
  have b: "0 < counterRequest requested"
    by (simp add: requested_eq)
  from completed_request_replay [OF a b] a b show ?thesis by simp
qed

subsection \<open>Binding the callback to the requested state\<close>

text \<open>
  Claim C3. The request stores, under the id the oracle hands out, the batch id and the
  digest of the aggregate of that batch; the digest is the hash of the aggregate handle's
  bytes together with the address of the contract. A callback that has passed the replay
  check recomputes the aggregate of the stored batch id from the batch as it is now, by
  the same formula and the same hash; when this digest differs from the stored one the
  call fails with \<open>StateMismatch\<close>, the transaction leaves the storage as it was, and the
  entry is still not processed.
\<close>

theorem callback_state_binding:
  "(requestDiscovery L e0 bid s0 = Inr (s1, evs) \<longrightarrow>
      batchId (decryptionContexts s1 (counterRequest s0)) = bid \<and>
      stateHash (decryptionContexts s1 (counterRequest s0))
        = hashCiphertexts L [scaled_average L (encryptedDataBatches s0 bid)]) \<and>
   (\<not> processed (decryptionContexts s rid) \<and>
    hashCiphertexts L
      [scaled_average L (encryptedDataBatches s (batchId (decryptionContexts s rid)))]
      \<noteq> stateHash (decryptionContexts s rid) \<longrightarrow>
      myCallback L e rid ct pf s = Inl StateMismatch \<and>
      transact L s (e, MyCallback rid ct pf) = s \<and>
      \<not> processed (decryptionContexts (transact L s (e, MyCallback rid ct pf)) rid)) \<and>
   hashCiphertexts L cts = keccak256_encode L (map (toBytes32 L) cts) (address_this L)"
proof (intro conjI impI)
  assume ok: "requestDiscovery L e0 bid s0 = Inr (s1, evs)"
  note r = requestDiscovery_Inr [OF ok]
  from r show "batchId (decryptionContexts s1 (counterRequest s0)) = bid" by simp
  from r show "stateHash (decryptionContexts s1 (counterRequest s0))
        = hashCiphertexts L [scaled_average L (encryptedDataBatches s0 bid)]" by simp
next
  assume a: "\<not> processed (decryptionContexts s rid) \<and>
    hashCiphertexts L
      [scaled_average L (encryptedDataBatches s (batchId (decryptionContexts s rid)))]
      \<noteq> stateHash (decryptionContexts s rid)"
  then show m: "myCallback L e rid ct pf s = Inl StateMismatch"
    by (simp add: myCallback_unfold)
  then show t: "transact L s (e, MyCallback rid ct pf) = s"
    by (simp add: transact_def)
  from a t show "\<not> processed (decryptionContexts (transact L s (e, MyCallback rid ct pf)) rid)"
    by simp
next
  show "hashCiphertexts L cts = keccak256_encode L (map (toBytes32 L) cts) (address_this L)"
    by (simp add: hashCiphertexts_def)
qed

theorem callback_state_binding_witness:
  "stateHash (decryptionContexts requested 0)
     = hashCiphertexts testFHE [scaled_average testFHE [11, 21, 31]] \<and>
   myCallback testFHE alice 0 cleartext20000 [0] tampered = Inl StateMismatch \<and>
   \<not> processed (decryptionContexts
        (transact testFHE tampered (alice, MyCallback 0 cleartext20000 [0])) 0)"
proof -
  note t = callback_state_binding [where L = testFHE and ?e0.0 = "bob 200" and bid = 1
      and ?s0.0 = closed1 and ?s1.0 = requested and evs = "[DecryptionRequested 0 1]"
      and s = tampered and rid = 0 and e = alice and ct = cleartext20000 and pf = "[0]"]
  have d: "encryptedDataBatches closed1 1 = [11, 21, 31]" "counterRequest closed1 = 0"
    by (simp_all add: closed1_eq filled_eq opened_eq)
  from t request_closed1 have "stateHash (decryptionContexts requested (counterRequest closed1))
        = hashCiphertexts testFHE [scaled_average testFHE (encryptedDataBatches closed1 1)]"
    by blast
  then have a: "stateHash (decryptionContexts requested 0)
     = hashCiphertexts testFHE [scaled_average testFHE [11, 21, 31]]"
    by (simp only: d)
  from t tampered_digest
  have b: "myCallback testFHE alice 0 cleartext20000 [0] tampered = Inl StateMismatch \<and>
      transact testFHE tampered (alice, MyCallback 0 cleartext20000 [0]) = tampered \<and>
      \<not> processed (decryptionContexts
        (transact testFHE tampered (alice, MyCallback 0 cleartext20000 [0])) 0)"
    by blast
  from a b show ?thesis by blast
qed

subsection \<open>The aggregate\<close>

text \<open>
  Claim C8, as the code has it. \<open>requestDiscovery\<close>, once past its provider, pause and
  cooldown checks, fails with \<open>InvalidBatch\<close> on a batch without values; when it succeeds
  the batch has values and the digest it stores is that of the scaled average: the sum
  of the handles, times the lifted 1000, divided by the lifted count, in this order. The
  callback recomputes the same scaled average of the batch it finds, with no check for
  an empty batch: it never fails with \<open>InvalidBatch\<close>, and it succeeds only when the
  digest of this scaled average is the stored one.
\<close>

theorem aggregate_scaled_average:
  "(isProvider s (msg_sender e) \<and> \<not> paused s \<and>
    unat (lastDecryptionRequestTime s (msg_sender e)) + unat (cooldownSeconds s)
      \<le> unat (block_timestamp e) \<and>
    encryptedDataBatches s bid = [] \<longrightarrow> requestDiscovery L e bid s = Inl InvalidBatch) \<and>
   (requestDiscovery L e bid s = Inr (s', evs) \<longrightarrow>
      encryptedDataBatches s bid \<noteq> [] \<and>
      stateHash (decryptionContexts s' (counterRequest s))
        = hashCiphertexts L [scaled_average L (encryptedDataBatches s bid)]) \<and>
   myCallback L e rid ct pf s \<noteq> Inl InvalidBatch \<and>
   (myCallback L e rid ct pf s = Inr (s', evs) \<longrightarrow>
      stateHash (decryptionContexts s rid)
        = hashCiphertexts L
            [scaled_average L (encryptedDataBatches s (batchId (decryptionContexts s rid)))]) \<and>
   scaled_average L data =
     fhe_div L (fhe_mul L (foldl (fhe_add L) (asEuint32 L 0) data) (asEuint32 L 1000))
       (asEuint32 L (of_nat (length data)))"
proof (intro conjI impI)
  assume "isProvider s (msg_sender e) \<and> \<not> paused s \<and>
    unat (lastDecryptionRequestTime s (msg_sender e)) + unat (cooldownSeconds s)
      \<le> unat (block_timestamp e) \<and>
    encryptedDataBatches s bid = []"
  then show "requestDiscovery L e bid s = Inl InvalidBatch"
    by (intro requestDiscovery_empty) simp_all
next
  assume ok: "requestDiscovery L e bid s = Inr (s', evs)"
  note r = requestDiscovery_Inr [OF ok]
  from r show "encryptedDataBatches s bid \<noteq> []" by simp
  from r show "stateHash (decryptionContexts s' (counterRequest s))
        = hashCiphertexts L [scaled_average L (encryptedDataBatches s bid)]" by simp
next
  show "myCallback L e rid ct pf s \<noteq> Inl InvalidBatch"
    by (simp add: myCallback_unfold split: option.split)
next
  assume "myCallback L e rid ct pf s = Inr (s', evs)"
  from myCallback_Inr [OF this]
  show "stateHash (decryptionContexts s rid)
        = hashCiphertexts L
            [scaled_average L (encryptedDataBatches s (batchId (decryptionContexts s rid)))]"
    by simp
next
  show "scaled_average L data =
     fhe_div L (fhe_mul L (foldl (fhe_add L) (asEuint32 L 0) data) (asEuint32 L 1000))
       (asEuint32 L (of_nat (length data)))"
    by (simp add: scaled_average_def)
qed

theorem aggregate_scaled_average_witness:
  "requestDiscovery testFHE (bob 200) 5 opened = Inl InvalidBatch \<and>
   stateHash (decryptionContexts requested 0)
     = hashCiphertexts testFHE [scaled_average testFHE [11, 21, 31]] \<and>
   scaled_average testFHE [11, 21, 31] = 20001"
proof -
  note empty = aggregate_scaled_average [where L = testFHE and e = "bob 200" and bid = 5
      and s = opened]
  note full = aggregate_scaled_average [where L = testFHE and e = "bob 200" and bid = 1
      and s = closed1 and s' = requested and evs = "[DecryptionRequested 0 1]"]
  have g: "isProvider opened (msg_sender (bob 200)) \<and> \<not> paused opened \<and>
    unat (lastDecryptionRequestTime opened (msg_sender (bob 200))) + unat (cooldownSeconds opened)
      \<le> unat (block_timestamp (bob 200)) \<and>
    encryptedDataBatches opened 5 = []"
    by (simp add: opened_eq bob_def)
  have d: "encryptedDataBatches closed1 1 = [11, 21, 31]" "counterRequest closed1 = 0"
    by (simp_all add: closed1_eq filled_eq opened_eq)
  from empty g have a: "requestDiscovery testFHE (bob 200) 5 opened = Inl InvalidBatch"
    by blast
  from full request_closed1
  have "stateHash (decryptionContexts requested (counterRequest closed1))
        = hashCiphertexts testFHE [scaled_average testFHE (encryptedDataBatches closed1 1)]"
    by blast
  then have b: "stateHash (decryptionContexts requested 0)
     = hashCiphertexts testFHE [scaled_average testFHE [11, 21, 31]]"
    by (simp only: d)
  from a b average_closed1 show ?thesis by blast
qed

text \<open>
  Claim C8 as stated fails for the callback: on the freshly constructed contract the
  entry of request id 3 names batch 0, which has no values, and the callback is answered
  with \<open>StateMismatch\<close>, not with \<open>InvalidBatch\<close>.
\<close>

theorem callback_empty_batch_no_InvalidBatch:
  "encryptedDataBatches fresh (batchId (decryptionContexts fresh 3)) = [] \<and>
   myCallback testFHE (bob 5) 3 [] [] fresh = Inl StateMismatch"
  by (simp add: myCallback_unfold fresh_def constructor_def testFHE_def hashCiphertexts_def
      scaled_average_def)

subsection \<open>The owner\<close>

lemma transact_owner:
  assumes "owner s \<noteq> 0" and "\<not> renounces s tx"
  shows "owner (transact L s tx) \<noteq> 0"
proof -
  obtain e c where tx: "tx = (e, c)" by (cases tx)
  from transact_cases [of L s e c] show ?thesis
  proof
    assume "transact L s (e, c) = s"
    with assms tx show ?thesis by simp
  next
    assume "\<exists>evs. exec L e c s = Inr (transact L s (e, c), evs)"
    then obtain evs where "exec L e c s = Inr (transact L s (e, c), evs)" ..
    from exec_Inr_owner [OF this] assms show ?thesis
      unfolding tx by auto
  qed
qed

text \<open>
  Claim C4, as the code has it. The constructor makes the deployer the owner, and
  \<open>transferOwnership\<close> accepts any new owner, the zero address included. So the owner is
  not the zero address in any storage reached from a deployment by a non-zero address
  through transactions among which the current owner never transfers the ownership to
  the zero address.
\<close>

theorem owner_nonzero_unless_renounced:
  assumes "msg_sender d \<noteq> 0" and "never_renounced L (fst (constructor d)) txs"
  shows "owner (run L (fst (constructor d)) txs) \<noteq> 0"
proof -
  have "owner s \<noteq> 0 \<Longrightarrow> never_renounced L s txs \<Longrightarrow> owner (foldl (transact L) s txs) \<noteq> 0"
    for s :: "'a storage"
  proof (induction txs arbitrary: s)
    case Nil
    then show ?case by simp
  next
    case (Cons tx txs)
    from Cons.prems have "owner (transact L s tx) \<noteq> 0"
      by (simp add: transact_owner)
    with Cons show ?case by simp
  qed
  moreover have "owner (fst (constructor d) :: 'a storage) \<noteq> 0"
    using assms(1) by (simp add: constructor_def)
  ultimately show ?thesis
    using assms(2) by (simp add: run_def)
qed

theorem owner_nonzero_unless_renounced_witness:
  "msg_sender alice \<noteq> 0 \<and>
   owner (run testFHE (fst (constructor alice))
     [(alice, AddProvider 2), (bob 5, TransferOwnership 0), (alice, TransferOwnership 2)]) \<noteq> 0"
proof -
  have a: "msg_sender alice \<noteq> 0" by (simp add: alice_def)
  have b: "never_renounced testFHE (fst (constructor alice))
     [(alice, AddProvider 2), (bob 5, TransferOwnership 0), (alice, TransferOwnership 2)]"
    by (simp add: transact_def constructor_def alice_def bob_def addProvider_def
        transferOwnership_def)
  from owner_nonzero_unless_renounced [OF a b] a show ?thesis by simp
qed

text \<open>
  Claim C4 as stated fails: the owner transfers the ownership to the zero address, the
  call succeeds, and the owner is the zero address afterwards.
\<close>

theorem transferOwnership_to_zero:
  "msg_sender alice \<noteq> 0 \<and>
   transferOwnership alice 0 fresh = Inr (fresh\<lparr>owner := 0\<rparr>, [OwnershipTransferred 1 0]) \<and>
   owner (run testFHE (fst (constructor alice)) [(alice, TransferOwnership 0)]) = 0"
  by (simp add: run_def transact_def fresh_def constructor_def alice_def transferOwnership_def)

end
